theory Spec2Isabelle
  imports Complex_Main "HOL-Library.Word" "HOL-Library.AList"
begin

section \<open>Values shared by the parser, the dispatch loop and the detector\<close>

text \<open>
  Python exceptions are values. Only the classes that the modelled code can raise
  are listed; all of them are subclasses of \<open>Exception\<close>, so every
  \<open>except Exception\<close> handler of the source catches each of them.
\<close>

datatype exn =
    StructError
  | AttributeError
  | KeyError
  | TypeError
  | ZeroDivisionError
  | ValueError
  | BlockingIOError
  | OSError

text \<open>
  The calls of \<open>log.error\<close> and \<open>log.info\<close>, one constructor per
  format string of the source, carrying the values the message interpolates.
\<close>

datatype log_entry =
    WrongVersion int
  | MalformedPacket
  | PutFailed string exn
  | LoopException exn
  | DetectedTarget int
  | ExitedWithException exn

type_synonym byte = "8 word"

section \<open>struct.unpack for network byte order formats\<close>

text \<open>
  Both formats of the source start with \<open>!\<close> (network byte order, standard
  sizes, no padding) and use only \<open>H\<close> (2 bytes), \<open>L\<close> (4 bytes) and
  \<open>B\<close> (1 byte), all unsigned.
\<close>

definition fmt_size :: "char \<Rightarrow> nat" where
  "fmt_size c =
     (if c = CHR ''H'' then 2 else if c = CHR ''L'' then 4 else if c = CHR ''B'' then 1 else 0)"

definition fmt_fields :: "string \<Rightarrow> nat list" where
  "fmt_fields fmt = map fmt_size (filter (\<lambda>c. c \<noteq> CHR ''!'') fmt)"

definition calcsize :: "string \<Rightarrow> nat" where
  "calcsize fmt = sum_list (fmt_fields fmt)"

definition be_uint :: "byte list \<Rightarrow> int" where
  "be_uint bs = foldl (\<lambda>acc b. acc * 256 + uint b) 0 bs"

fun unpack_fields :: "nat list \<Rightarrow> byte list \<Rightarrow> int list" where
  "unpack_fields [] bs = []"
| "unpack_fields (n # ns) bs = be_uint (take n bs) # unpack_fields ns (drop n bs)"

text \<open>\<open>struct.unpack\<close> raises \<open>struct.error\<close> unless the buffer has exactly the size of the format.\<close>

definition struct_unpack :: "string \<Rightarrow> byte list \<Rightarrow> exn + int list" where
  "struct_unpack fmt buf =
     (if length buf \<noteq> calcsize fmt then Inl StructError
      else Inr (unpack_fields (fmt_fields fmt) buf))"

text \<open>The slice \<open>xs[a:b]\<close> for \<open>0 \<le> a \<le> b\<close>; it is shorter when \<open>xs\<close> ends before \<open>b\<close>.\<close>

definition py_slice :: "nat \<Rightarrow> nat \<Rightarrow> 'a list \<Rightarrow> 'a list" where
  "py_slice a b xs = take (b - a) (drop a xs)"

section \<open>NetflowParser\<close>

record nf_header =
  version :: int
  nflows :: int

record flow =
  src_addr :: int
  dst_addr :: int
  src_port :: int
  dst_port :: int
  npackets :: int
  nbytes :: int
  tcpflags :: int
  proto :: int

record packet =
  header :: nf_header
  flows :: "flow list"

definition header_fmt :: string where
  "header_fmt = ''!HHLLLLL''"

definition header_len :: nat where
  "header_len = calcsize header_fmt"

definition flow_fmt :: string where
  "flow_fmt = ''!LLLHHLLLLHHBBBBHHBBH''"

definition flow_len :: nat where
  "flow_len = calcsize flow_fmt"

text \<open>The dictionary built from one unpacked flow record (lines 87 to 96).\<close>

definition mk_flow :: "int list \<Rightarrow> flow" where
  "mk_flow flow_unpacked =
     \<lparr>src_addr = flow_unpacked ! 0,
      dst_addr = flow_unpacked ! 1,
      src_port = flow_unpacked ! 9,
      dst_port = flow_unpacked ! 10,
      npackets = flow_unpacked ! 5,
      nbytes = flow_unpacked ! 6,
      tcpflags = flow_unpacked ! 12,
      proto = flow_unpacked ! 13\<rparr>"

text \<open>
  The loop \<open>for i in range(header['nflows'])\<close>: the second argument is the
  list of indices still to visit, the third (\<open>fl\<close>) the list \<open>flows\<close> built so far.
  An exception of \<open>struct.unpack\<close> leaves the loop and the function.
\<close>

fun parse_flows :: "byte list \<Rightarrow> nat list \<Rightarrow> flow list \<Rightarrow> exn + flow list" where
  "parse_flows recv_data [] fl = Inr fl"
| "parse_flows recv_data (i # rest) fl =
     (let flow_offset = header_len + i * flow_len in
      case struct_unpack flow_fmt (py_slice flow_offset (flow_offset + flow_len) recv_data) of
        Inl e \<Rightarrow> Inl e
      | Inr flow_unpacked \<Rightarrow> parse_flows recv_data rest (fl @ [mk_flow flow_unpacked]))"

text \<open>
  \<open>parse_netflow_packet\<close> gives the messages it logged and then either the
  exception it raised (\<open>Inl\<close>) or the value it returned (\<open>Inr\<close>): \<open>None\<close> or
  the packet dictionary. After the message \<open>Malformed packet received\<close> the
  source goes on to the record loop; there is no return in that branch.
\<close>

definition parse_netflow_packet :: "byte list \<Rightarrow> log_entry list \<times> (exn + packet option)" where
  "parse_netflow_packet recv_data =
     (if recv_data = [] then ([], Inr None)
      else
        case struct_unpack header_fmt (py_slice 0 header_len recv_data) of
          Inl e \<Rightarrow> ([], Inl e)
        | Inr header_unpacked \<Rightarrow>
            let hdr = \<lparr>version = header_unpacked ! 0, nflows = header_unpacked ! 1\<rparr> in
            if version hdr \<noteq> 5 then ([WrongVersion (version hdr)], Inr None)
            else
              let lg = (if int (length recv_data) \<noteq> int header_len + nflows hdr * int flow_len
                        then [MalformedPacket] else [])
              in case parse_flows recv_data [0..<nat (nflows hdr)] [] of
                   Inl e \<Rightarrow> (lg, Inl e)
                 | Inr fl \<Rightarrow> (lg, Inr (Some \<lparr>header = hdr, flows = fl\<rparr>)))"

text \<open>
  The methods of class \<open>NetflowParser\<close> that take the received bytes, by
  name, and a call \<open>nfp.<name>(recv_data)\<close> on an instance: a name the class
  does not define raises \<open>AttributeError\<close>.
\<close>

definition NetflowParser_methods ::
    "(string \<times> (byte list \<Rightarrow> log_entry list \<times> (exn + packet option))) list" where
  "NetflowParser_methods = [(''parse_netflow_packet'', parse_netflow_packet)]"

definition nfp_call :: "string \<Rightarrow> byte list \<Rightarrow> log_entry list \<times> (exn + packet option)" where
  "nfp_call meth recv_data =
     (case map_of NetflowParser_methods meth of
        None \<Rightarrow> ([], Inl AttributeError)
      | Some f \<Rightarrow> f recv_data)"

section \<open>The dispatch loop of the main program\<close>

text \<open>
  A module's \<open>multiprocessing.Queue\<close>: the objects put so far, and whether the
  queue has been closed. The queues of the source are unbounded, so \<open>put\<close>
  raises only on a closed queue (\<open>ValueError\<close>).
\<close>

record mp_queue =
  q_items :: "packet list"
  q_closed :: bool

definition queue_put :: "mp_queue \<Rightarrow> packet \<Rightarrow> exn + mp_queue" where
  "queue_put q obj = (if q_closed q then Inl ValueError else Inr (q\<lparr>q_items := q_items q @ [obj]\<rparr>))"

text \<open>
  An entry of \<open>gcfg.module_objects\<close>; of its keys the loop reads only
  \<open>module_output_queue\<close>. The dictionary is an association list in insertion
  order, which is the order \<open>keys()\<close> iterates in.
\<close>

record module_entry =
  name :: string
  module_output_queue :: mp_queue

text \<open>The counters and modules of \<open>gcfg\<close>, and the lines written to the log.\<close>

record main_state =
  packets_processed :: int
  packets_total :: int
  module_objects :: "(string \<times> module_entry) list"
  app_log :: "log_entry list"

text \<open>What \<open>key.fileobj.recvfrom(2048)\<close> does for one event: it returns a datagram or raises.\<close>

datatype recv_result = Received "byte list" | RecvRaised exn

text \<open>
  Lines 215 to 219: the loop over \<open>gcfg.module_objects.keys()\<close>, each
  \<open>put\<close> in its own \<open>try\<close>. The second argument is the list of
  names still to visit.
\<close>

fun send_to_modules :: "packet \<Rightarrow> string list \<Rightarrow> main_state \<Rightarrow> main_state" where
  "send_to_modules pack [] g = g"
| "send_to_modules pack (mod_name # rest) g =
     (case map_of (module_objects g) mod_name of
        None \<Rightarrow>
          send_to_modules pack rest (g\<lparr>app_log := app_log g @ [PutFailed mod_name KeyError]\<rparr>)
      | Some m \<Rightarrow>
          (case queue_put (module_output_queue m) pack of
             Inl e \<Rightarrow>
               send_to_modules pack rest (g\<lparr>app_log := app_log g @ [PutFailed mod_name e]\<rparr>)
           | Inr q \<Rightarrow>
               send_to_modules pack rest
                 (g\<lparr>module_objects :=
                      AList.update mod_name (m\<lparr>module_output_queue := q\<rparr>) (module_objects g)\<rparr>)))"

text \<open>
  Lines 204 to 219, the body of \<open>for key, ev_mask in events\<close>. The argument
  \<open>parse\<close> is the callable that line 211 invokes on the received bytes. The
  result is the state the body leaves, and the exception that leaves the body, if
  any: \<open>BlockingIOError\<close> from \<open>recvfrom\<close> is passed over, every other
  exception propagates to the handler of line 220. A returned packet dictionary has
  two keys and is true; \<open>None\<close> is false.
\<close>

definition handle_event ::
    "(byte list \<Rightarrow> log_entry list \<times> (exn + packet option)) \<Rightarrow> main_state \<Rightarrow> recv_result
      \<Rightarrow> main_state \<times> exn option" where
  "handle_event parse g ev =
     (case ev of
        RecvRaised e \<Rightarrow> (if e = BlockingIOError then (g, None) else (g, Some e))
      | Received recv_data \<Rightarrow>
          let g1 = g\<lparr>packets_total := packets_total g + 1\<rparr> in
          (case parse recv_data of
             (lg, Inl e) \<Rightarrow> (g1\<lparr>app_log := app_log g1 @ lg\<rparr>, Some e)
           | (lg, Inr None) \<Rightarrow> (g1\<lparr>app_log := app_log g1 @ lg\<rparr>, None)
           | (lg, Inr (Some pack)) \<Rightarrow>
               let g2 = g1\<lparr>app_log := app_log g1 @ lg\<rparr>;
                   g3 = g2\<lparr>packets_processed := packets_processed g2 + 1\<rparr>
               in (send_to_modules pack (map fst (module_objects g3)) g3, None)))"

fun handle_events ::
    "(byte list \<Rightarrow> log_entry list \<times> (exn + packet option)) \<Rightarrow> main_state \<Rightarrow> recv_result list
      \<Rightarrow> main_state \<times> exn option" where
  "handle_events parse g [] = (g, None)"
| "handle_events parse g (ev # evs) =
     (case handle_event parse g ev of
        (g', Some e) \<Rightarrow> (g', Some e)
      | (g', None) \<Rightarrow> handle_events parse g' evs)"

text \<open>
  Lines 201 to 221, one iteration of the \<open>while\<close> loop: \<open>sel.select\<close>
  returns the events or raises, and any exception of the iteration is logged by the
  handler of line 220.
\<close>

definition loop_iteration ::
    "(byte list \<Rightarrow> log_entry list \<times> (exn + packet option)) \<Rightarrow> main_state
      \<Rightarrow> exn + recv_result list \<Rightarrow> main_state" where
  "loop_iteration parse g sel =
     (case sel of
        Inl e \<Rightarrow> g\<lparr>app_log := app_log g @ [LoopException e]\<rparr>
      | Inr events \<Rightarrow>
          (case handle_events parse g events of
             (g', None) \<Rightarrow> g'
           | (g', Some e) \<Rightarrow> g'\<lparr>app_log := app_log g' @ [LoopException e]\<rparr>))"

text \<open>The iterations made until the stop event is set, one element of the list each.\<close>

fun main_loop ::
    "(byte list \<Rightarrow> log_entry list \<times> (exn + packet option)) \<Rightarrow> main_state
      \<Rightarrow> (exn + recv_result list) list \<Rightarrow> main_state" where
  "main_loop parse g [] = g"
| "main_loop parse g (sel # rest) = main_loop parse (loop_iteration parse g sel) rest"

text \<open>
  The loop as the source has it: line 211 calls \<open>nfp.parse_packet\<close>, and the
  counters of \<open>GlobalConfig\<close> start at zero.
\<close>

definition dispatch_loop :: "main_state \<Rightarrow> (exn + recv_result list) list \<Rightarrow> main_state" where
  "dispatch_loop = main_loop (nfp_call ''parse_packet'')"

definition initial_state :: "(string \<times> module_entry) list \<Rightarrow> main_state" where
  "initial_state mods =
     \<lparr>packets_processed = 0, packets_total = 0, module_objects = mods, app_log = []\<rparr>"

section \<open>SimpleDDoSDetector\<close>

text \<open>
  \<open>ips_state\<close> is a \<open>defaultdict(int)\<close> whose values are set to inner
  \<open>defaultdict(int)\<close> objects by \<open>update_state\<close>; a value is therefore
  either what the outer default factory makes (an int) or an inner dictionary from
  source address to packet count. Dictionaries are association lists in insertion
  order. Times and the average packet size are Python floats, modelled as reals.
\<close>

datatype dval = IntVal int | DictVal "(int \<times> int) list"

record SimpleDDoSDetector =
  analysis_interval :: real
  ips_threshold :: int
  max_avg_packet_size :: real
  min_packets_per_source :: int
  ips_state :: "(int \<times> dval) list"
  start_ts :: real

text \<open>
  \<open>__init__\<close>, given the four options of the module descriptor. It does not
  assign \<open>start_ts\<close>; \<open>run\<close> does before the first read, so the
  value here is never used.
\<close>

definition SimpleDDoSDetector_init :: "real \<Rightarrow> int \<Rightarrow> real \<Rightarrow> int \<Rightarrow> SimpleDDoSDetector" where
  "SimpleDDoSDetector_init interval threshold max_avg min_packets =
     \<lparr>analysis_interval = interval, ips_threshold = threshold, max_avg_packet_size = max_avg,
      min_packets_per_source = min_packets, ips_state = [], start_ts = 0\<rparr>"

text \<open>
  \<open>d[k]\<close> on a \<open>defaultdict\<close>: a missing key is inserted with the default
  value, which is returned.
\<close>

definition dd_getitem :: "'v \<Rightarrow> ('k \<times> 'v) list \<Rightarrow> 'k \<Rightarrow> 'v \<times> ('k \<times> 'v) list" where
  "dd_getitem dflt d k =
     (case map_of d k of
        Some v \<Rightarrow> (v, d)
      | None \<Rightarrow> (dflt, d @ [(k, dflt)]))"

text \<open>
  \<open>a / b\<close> on ints. The quotient here is the exact one; Python rounds it
  to the nearest double, so the comparison of line 29 can come out differently
  from the one on the exact quotient when the threshold lies within that rounding
  of it. What is proved of the division by zero, of the evaluation and of the
  window does not depend on which side of the threshold a flow falls.
\<close>

definition truediv :: "int \<Rightarrow> int \<Rightarrow> exn + real" where
  "truediv a b = (if b = 0 then Inl ZeroDivisionError else Inr (real_of_int a / real_of_int b))"

text \<open>
  Lines 27 to 33, the body of the loop of \<open>update_state\<close> for one flow. The
  result is the exception raised, if any, and the detector as the body leaves it.
\<close>

definition update_flow :: "SimpleDDoSDetector \<Rightarrow> flow \<Rightarrow> exn option \<times> SimpleDDoSDetector" where
  "update_flow self f =
     (case truediv (nbytes f) (npackets f) of
        Inl e \<Rightarrow> (Some e, self)
      | Inr avg_packet_size \<Rightarrow>
          if avg_packet_size < max_avg_packet_size self then
            let st1 = (if map_of (ips_state self) (dst_addr f) = None
                       then AList.update (dst_addr f) (DictVal []) (ips_state self)
                       else ips_state self);
                (v, st2) = dd_getitem (IntVal 0) st1 (dst_addr f)
            in (case v of
                  IntVal n \<Rightarrow> (Some TypeError, self\<lparr>ips_state := st2\<rparr>)
                | DictVal srcs \<Rightarrow>
                    let (c, srcs1) = dd_getitem 0 srcs (src_addr f);
                        srcs2 = AList.update (src_addr f) (c + npackets f) srcs1
                    in (None, self\<lparr>ips_state := AList.update (dst_addr f) (DictVal srcs2) st2\<rparr>))
          else (None, self))"

fun update_flows :: "SimpleDDoSDetector \<Rightarrow> flow list \<Rightarrow> exn option \<times> SimpleDDoSDetector" where
  "update_flows self [] = (None, self)"
| "update_flows self (f # fs) =
     (case update_flow self f of
        (Some e, self') \<Rightarrow> (Some e, self')
      | (None, self') \<Rightarrow> update_flows self' fs)"

definition update_state :: "SimpleDDoSDetector \<Rightarrow> packet \<Rightarrow> exn option \<times> SimpleDDoSDetector" where
  "update_state self pack = update_flows self (flows pack)"

text \<open>
  Lines 40 to 43: the loop over the sources of \<open>dst_addr\<close>; the third
  argument is the list of source keys still to visit, the result the value of
  \<open>this_is_it\<close>. Every subscript goes through \<open>dd_getitem\<close>, so a read
  that inserted a key would show in the detector returned.
\<close>

fun check_sources ::
    "SimpleDDoSDetector \<Rightarrow> int \<Rightarrow> int list \<Rightarrow> (exn + bool) \<times> SimpleDDoSDetector" where
  "check_sources self dst [] = (Inr True, self)"
| "check_sources self dst (src # rest) =
     (let (v, st1) = dd_getitem (IntVal 0) (ips_state self) dst in
      case v of
        IntVal n \<Rightarrow> (Inl TypeError, self\<lparr>ips_state := st1\<rparr>)
      | DictVal srcs \<Rightarrow>
          let (c, srcs1) = dd_getitem 0 srcs src;
              self1 = self\<lparr>ips_state := AList.update dst (DictVal srcs1) st1\<rparr>
          in if c < min_packets_per_source self1 then (Inr False, self1)
             else check_sources self1 dst rest)"

text \<open>
  Lines 37 to 45: the loop over the destination keys (second argument: the keys
  still to visit; third: \<open>targets\<close> so far). Line 38 and line 40 each
  subscript \<open>ips_state\<close>; \<open>len\<close> of an int raises
  \<open>TypeError\<close>, \<open>keys\<close> of an int \<open>AttributeError\<close>.
\<close>

fun detect_loop ::
    "SimpleDDoSDetector \<Rightarrow> int list \<Rightarrow> int list \<Rightarrow> (exn + int list) \<times> SimpleDDoSDetector" where
  "detect_loop self [] targets = (Inr targets, self)"
| "detect_loop self (dst # rest) targets =
     (let (v, st1) = dd_getitem (IntVal 0) (ips_state self) dst;
          self1 = self\<lparr>ips_state := st1\<rparr>
      in case v of
           IntVal n \<Rightarrow> (Inl TypeError, self1)
         | DictVal srcs \<Rightarrow>
             if int (length srcs) > ips_threshold self1 then
               (let (v', st2) = dd_getitem (IntVal 0) (ips_state self1) dst;
                    self2 = self1\<lparr>ips_state := st2\<rparr>
                in case v' of
                     IntVal n \<Rightarrow> (Inl AttributeError, self2)
                   | DictVal srcs' \<Rightarrow>
                       (case check_sources self2 dst (map fst srcs') of
                          (Inl e, self3) \<Rightarrow> (Inl e, self3)
                        | (Inr this_is_it, self3) \<Rightarrow>
                            detect_loop self3 rest
                              (if this_is_it then targets @ [dst] else targets)))
             else detect_loop self1 rest targets)"

definition detect_ddos_targets ::
    "SimpleDDoSDetector \<Rightarrow> (exn + int list) \<times> SimpleDDoSDetector" where
  "detect_ddos_targets self = detect_loop self (map fst (ips_state self)) []"

definition report_ddos_targets :: "int list \<Rightarrow> log_entry list" where
  "report_ddos_targets targets = map DetectedTarget targets"

text \<open>
  Lines 56 to 68, one iteration of the loop of \<open>run\<close>. \<open>got\<close> is what
  \<open>q.get(timeout=1.0)\<close> gave (\<open>None\<close> for \<open>queue.Empty\<close>),
  \<open>now1\<close> and \<open>now2\<close> are the values of \<open>time.time()\<close> at lines 63
  and 68. The result is the exception that leaves the iteration, if any, the
  detector, and the lines logged.
\<close>

definition run_iteration ::
    "SimpleDDoSDetector \<Rightarrow> packet option \<Rightarrow> real \<Rightarrow> real
      \<Rightarrow> exn option \<times> SimpleDDoSDetector \<times> log_entry list" where
  "run_iteration self got now1 now2 =
     (case (case got of None \<Rightarrow> (None, self) | Some pack \<Rightarrow> update_state self pack) of
        (Some e, self1) \<Rightarrow> (Some e, self1, [])
      | (None, self1) \<Rightarrow>
          if now1 - start_ts self1 > analysis_interval self1 then
            (case detect_ddos_targets self1 of
               (Inl e, self2) \<Rightarrow> (Some e, self2, [])
             | (Inr ddos_targets, self2) \<Rightarrow>
                 (None, self2\<lparr>ips_state := [], start_ts := now2\<rparr>,
                  if length ddos_targets > 0 then report_ddos_targets ddos_targets else []))
          else (None, self1, []))"

text \<open>
  The loop of \<open>run\<close> for the iterations made until the stop event is set; an
  exception ends the loop and is logged by the handler of line 69.
\<close>

fun run_loop ::
    "SimpleDDoSDetector \<Rightarrow> (packet option \<times> real \<times> real) list
      \<Rightarrow> SimpleDDoSDetector \<times> log_entry list" where
  "run_loop self [] = (self, [])"
| "run_loop self ((got, now1, now2) # rest) =
     (case run_iteration self got now1 now2 of
        (Some e, self1, lg) \<Rightarrow> (self1, lg @ [ExitedWithException e])
      | (None, self1, lg) \<Rightarrow>
          (case run_loop self1 rest of (self2, lg2) \<Rightarrow> (self2, lg @ lg2)))"

definition run ::
    "SimpleDDoSDetector \<Rightarrow> real \<Rightarrow> (packet option \<times> real \<times> real) list
      \<Rightarrow> SimpleDDoSDetector \<times> log_entry list" where
  "run self t0 inputs = run_loop (self\<lparr>start_ts := t0\<rparr>) inputs"

section \<open>Reference readings used in the statements\<close>

text \<open>
  The flow record read directly from the datagram: each field is the big-endian
  integer at its fixed offset from the start \<open>off\<close> of the record, as the
  wire format lays the record out.
\<close>

definition wire_flow :: "byte list \<Rightarrow> nat \<Rightarrow> flow" where
  "wire_flow d off =
     \<lparr>src_addr = be_uint (py_slice off (off + 4) d),
      dst_addr = be_uint (py_slice (off + 4) (off + 8) d),
      src_port = be_uint (py_slice (off + 32) (off + 34) d),
      dst_port = be_uint (py_slice (off + 34) (off + 36) d),
      npackets = be_uint (py_slice (off + 16) (off + 20) d),
      nbytes = be_uint (py_slice (off + 20) (off + 24) d),
      tcpflags = be_uint (py_slice (off + 37) (off + 38) d),
      proto = be_uint (py_slice (off + 38) (off + 39) d)\<rparr>"

text \<open>
  A datagram with version 5 and two flow records: 10.0.0.1:1234 to 10.0.0.2:80,
  100 packets and 6000 bytes, and 10.0.0.3:5555 to 10.0.0.2:80, 50 packets and 3000
  bytes, both TCP.
\<close>

definition sample_datagram :: "byte list" where
  "sample_datagram =
   [0, 5, 0, 2, 0, 0, 0, 0, 0, 0, 0, 0, 0, 0, 0, 0, 0, 0, 0, 0, 0, 0, 0, 0, 10, 0, 0, 1,
    10, 0, 0, 2, 0, 0, 0, 0, 0, 0, 0, 0, 0, 0, 0, 100, 0, 0, 23, 112, 0, 0, 0, 0, 0, 0,
    0, 0, 4, 210, 0, 80, 0, 18, 6, 0, 0, 0, 0, 0, 0, 0, 0, 0, 10, 0, 0, 3, 10, 0, 0, 2,
    0, 0, 0, 0, 0, 0, 0, 0, 0, 0, 0, 50, 0, 0, 11, 184, 0, 0, 0, 0, 0, 0, 0, 0, 21, 179,
    0, 80, 0, 16, 6, 0, 0, 0, 0, 0, 0, 0, 0, 0]"

text \<open>A header with version 5 and flow count 0, followed by one more byte.\<close>

definition trailing_datagram :: "byte list" where
  "trailing_datagram =
   [0, 5, 0, 0, 0, 0, 0, 0, 0, 0, 0, 0, 0, 0, 0, 0, 0, 0, 0, 0, 0, 0, 0, 0, 255]"



text \<open>The packet that \<open>sample_datagram\<close> encodes.\<close>

definition sample_packet :: packet where
  "sample_packet =
     \<lparr>header = \<lparr>version = 5, nflows = 2\<rparr>,
      flows =
        [\<lparr>src_addr = 167772161, dst_addr = 167772162, src_port = 1234, dst_port = 80,
          npackets = 100, nbytes = 6000, tcpflags = 18, proto = 6\<rparr>,
         \<lparr>src_addr = 167772163, dst_addr = 167772162, src_port = 5555, dst_port = 80,
          npackets = 50, nbytes = 3000, tcpflags = 16, proto = 6\<rparr>]\<rparr>"

text \<open>Three registered modules; the queue of the second one is closed.\<close>

definition sample_modules :: "(string \<times> module_entry) list" where
  "sample_modules =
     [(''a'', \<lparr>name = ''a'', module_output_queue = \<lparr>q_items = [], q_closed = False\<rparr>\<rparr>),
      (''b'', \<lparr>name = ''b'', module_output_queue = \<lparr>q_items = [], q_closed = True\<rparr>\<rparr>),
      (''c'', \<lparr>name = ''c'', module_output_queue = \<lparr>q_items = [], q_closed = False\<rparr>\<rparr>)]"

text \<open>A bare header with version 9 that declares three flow records and carries none.\<close>

definition version9_datagram :: "byte list" where
  "version9_datagram = [0, 9, 0, 3, 0, 0, 0, 0, 0, 0, 0, 0, 0, 0, 0, 0, 0, 0, 0, 0, 0, 0, 0, 0]"

text \<open>
  Four iterations of the loop: a well-formed datagram, a datagram of three bytes,
  a \<open>recvfrom\<close> that would block, and a \<open>select\<close> that raises.
\<close>

definition sample_run :: "(exn + recv_result list) list" where
  "sample_run =
     [Inr [Received sample_datagram], Inr [Received [0, 5, 0]], Inr [RecvRaised BlockingIOError],
      Inl OSError]"

text \<open>
  The shape \<open>ips_state\<close> has as a Python dictionary filled by
  \<open>update_state\<close>: no key occurs twice, every value is an inner dictionary,
  and no source key occurs twice in it.
\<close>

definition dict_ok :: "(int \<times> dval) list \<Rightarrow> bool" where
  "dict_ok st =
     (distinct (map fst st) \<and>
      list_all (\<lambda>(dst, v). case v of IntVal n \<Rightarrow> False | DictVal srcs \<Rightarrow> distinct (map fst srcs)) st)"

text \<open>
  The per-source packet counts accumulated for a destination, as a map; empty for
  a destination that is not a key.
\<close>

definition sources_of :: "(int \<times> dval) list \<Rightarrow> int \<Rightarrow> (int \<rightharpoonup> int)" where
  "sources_of st dst = (case map_of st dst of Some (DictVal srcs) \<Rightarrow> map_of srcs | _ \<Rightarrow> Map.empty)"

text \<open>
  The test a destination's entry has to pass to be reported: more sources than
  \<open>ips_threshold\<close>, each with at least \<open>min_packets_per_source\<close>
  packets.
\<close>

definition suspected :: "SimpleDDoSDetector \<Rightarrow> dval \<Rightarrow> bool" where
  "suspected self v =
     (case v of
        IntVal n \<Rightarrow> False
      | DictVal srcs \<Rightarrow>
          ips_threshold self < int (length srcs) \<and>
          list_all (\<lambda>(src, c). min_packets_per_source self \<le> c) srcs)"

definition expected_targets :: "SimpleDDoSDetector \<Rightarrow> int list" where
  "expected_targets self = map fst (filter (\<lambda>(dst, v). suspected self v) (ips_state self))"

text \<open>
  The accumulator after \<open>n\<close> packets from \<open>src\<close> to \<open>dst\<close> have
  been added to the count of that pair (0 when the pair is new).
\<close>

definition accrue :: "(int \<times> dval) list \<Rightarrow> int \<Rightarrow> int \<Rightarrow> int \<Rightarrow> (int \<times> dval) list" where
  "accrue st dst src n =
     (let srcs = (case map_of st dst of Some (DictVal s) \<Rightarrow> s | _ \<Rightarrow> []);
          c = (case map_of srcs src of Some c \<Rightarrow> c | None \<Rightarrow> 0)
      in AList.update dst (DictVal (AList.update src (c + n) srcs)) st)"

text \<open>
  What one flow record with a packet count other than 0 adds to the accumulator:
  its packets, when its bytes per packet are below \<open>max_avg_packet_size\<close>.
\<close>

definition accrue_flow :: "SimpleDDoSDetector \<Rightarrow> (int \<times> dval) list \<Rightarrow> flow \<Rightarrow> (int \<times> dval) list" where
  "accrue_flow self st f =
     (if real_of_int (nbytes f) / real_of_int (npackets f) < max_avg_packet_size self
      then accrue st (dst_addr f) (src_addr f) (npackets f)
      else st)"

text \<open>
  A detector with a window of 10 seconds that reports a destination with more than
  one source of at least 10 packets each, counting flows of fewer than 100 bytes per
  packet; the same detector after \<open>sample_packet\<close>; a packet with one source
  only; and a datagram, with the packet it encodes, whose one record has a packet
  count of 0.
\<close>

definition sample_detector :: SimpleDDoSDetector where
  "sample_detector = SimpleDDoSDetector_init 10 1 100 10"

definition loaded_detector :: SimpleDDoSDetector where
  "loaded_detector =
     sample_detector\<lparr>ips_state := [(167772162, DictVal [(167772161, 100), (167772163, 50)])]\<rparr>"

definition single_source_packet :: packet where
  "single_source_packet =
     \<lparr>header = \<lparr>version = 5, nflows = 1\<rparr>,
      flows =
        [\<lparr>src_addr = 167772161, dst_addr = 167772162, src_port = 1234, dst_port = 80,
          npackets = 100, nbytes = 6000, tcpflags = 18, proto = 6\<rparr>]\<rparr>"

definition zero_count_datagram :: "byte list" where
  "zero_count_datagram =
   [0, 5, 0, 1, 0, 0, 0, 0, 0, 0, 0, 0, 0, 0, 0, 0, 0, 0, 0, 0, 0, 0, 0, 0, 10, 0, 0, 1,
    10, 0, 0, 2, 0, 0, 0, 0, 0, 0, 0, 0, 0, 0, 0, 0, 0, 0, 0, 0, 0, 0, 0, 0, 0, 0, 0, 0,
    4, 210, 0, 80, 0, 0, 6, 0, 0, 0, 0, 0, 0, 0, 0, 0]"

definition zero_count_packet :: packet where
  "zero_count_packet =
     \<lparr>header = \<lparr>version = 5, nflows = 1\<rparr>,
      flows =
        [\<lparr>src_addr = 167772161, dst_addr = 167772162, src_port = 1234, dst_port = 80,
          npackets = 0, nbytes = 0, tcpflags = 0, proto = 6\<rparr>]\<rparr>"

section \<open>Sizes and field offsets\<close>

lemma header_len_eq: "header_len = 24"
  by (simp add: header_len_def calcsize_def fmt_fields_def fmt_size_def header_fmt_def)

lemma flow_len_eq: "flow_len = 48"
  by (simp add: flow_len_def calcsize_def fmt_fields_def fmt_size_def flow_fmt_def)

lemma flow_fields_eq:
  "fmt_fields flow_fmt = [4, 4, 4, 2, 2, 4, 4, 4, 4, 2, 2, 1, 1, 1, 1, 2, 2, 1, 1, 2]"
  by (simp add: fmt_fields_def fmt_size_def flow_fmt_def)

lemma header_fields_eq: "fmt_fields header_fmt = [2, 2, 4, 4, 4, 4, 4]"
  by (simp add: fmt_fields_def fmt_size_def header_fmt_def)

lemma take_drop_take: "a + b \<le> c \<Longrightarrow> take a (drop b (take c xs)) = take a (drop b xs)"
  by (simp add: drop_take min_def)

lemma unpack_flow_slice:
  assumes "off + 48 \<le> length d"
  shows "struct_unpack flow_fmt (py_slice off (off + 48) d) = Inr (unpack_fields (fmt_fields flow_fmt) (take 48 (drop off d)))"
  using assms by (simp add: struct_unpack_def py_slice_def flow_len_eq [unfolded flow_len_def])

lemma mk_flow_slice:
  "mk_flow (unpack_fields (fmt_fields flow_fmt) (take 48 (drop off d))) = wire_flow d off"
  by (simp add: flow_fields_eq mk_flow_def wire_flow_def py_slice_def take_drop_take add.commute)

lemma short_slice: "length d < off + 48 \<Longrightarrow> struct_unpack flow_fmt (py_slice off (off + 48) d) = Inl StructError"
  by (auto simp add: struct_unpack_def py_slice_def flow_len_eq [unfolded flow_len_def])

lemma parse_flows_ok:
  "\<forall>i\<in>set is. header_len + (i + 1) * flow_len \<le> length d \<Longrightarrow>
   parse_flows d is fl = Inr (fl @ map (\<lambda>i. wire_flow d (header_len + i * flow_len)) is)"
proof (induction "is" arbitrary: fl)
  case Nil
  then show ?case by simp
next
  case (Cons i rest)
  have "header_len + i * flow_len + 48 \<le> length d"
    using Cons.prems by (simp add: flow_len_eq)
  then have "struct_unpack flow_fmt (py_slice (header_len + i * flow_len) (header_len + i * flow_len + flow_len) d)
     = Inr (unpack_fields (fmt_fields flow_fmt) (take 48 (drop (header_len + i * flow_len) d)))"
    using unpack_flow_slice [of "header_len + i * flow_len" d] by (simp add: flow_len_eq)
  then show ?case using Cons by (simp add: mk_flow_slice)
qed

lemma unpack_header:
  assumes "24 \<le> length d"
  shows "struct_unpack header_fmt (py_slice 0 header_len d) = Inr (unpack_fields (fmt_fields header_fmt) (take 24 d))"
  using assms by (simp add: struct_unpack_def py_slice_def header_len_eq header_len_eq [unfolded header_len_def])

lemma header_version: "unpack_fields (fmt_fields header_fmt) (take 24 d) ! 0 = be_uint (py_slice 0 2 d)"
  by (simp add: header_fields_eq py_slice_def)

lemma header_nflows: "unpack_fields (fmt_fields header_fmt) (take 24 d) ! Suc 0 = be_uint (py_slice 2 4 d)"
  by (simp add: header_fields_eq py_slice_def take_drop_take)

lemma parse_empty: "parse_netflow_packet [] = ([], Inr None)"
  by (simp add: parse_netflow_packet_def)

lemma parse_short:
  assumes "d \<noteq> []" "length d < header_len"
  shows "parse_netflow_packet d = ([], Inl StructError)"
  using assms
  by (simp add: parse_netflow_packet_def struct_unpack_def py_slice_def header_len_eq
      header_len_eq [unfolded header_len_def])

lemma parse_wrong_version:
  assumes "header_len \<le> length d" "be_uint (py_slice 0 2 d) \<noteq> 5"
  shows "parse_netflow_packet d = ([WrongVersion (be_uint (py_slice 0 2 d))], Inr None)"
proof -
  have len: "24 \<le> length d" using assms(1) by (simp add: header_len_eq)
  then have "d \<noteq> []" by auto
  then show ?thesis using assms(2)
    by (simp add: parse_netflow_packet_def unpack_header [OF len] header_version Let_def)
qed

lemma parse_packet_is_v5:
  assumes "snd (parse_netflow_packet d) = Inr (Some p)"
  shows "header_len \<le> length d \<and> be_uint (py_slice 0 2 d) = 5 \<and> version (header p) = 5"
proof (cases "header_len \<le> length d")
  case False
  then show ?thesis using assms parse_short [of d] parse_empty by (cases "d = []") auto
next
  case True
  then have len: "24 \<le> length d" by (simp add: header_len_eq)
  then have "d \<noteq> []" by auto
  then show ?thesis using assms True
    by (auto simp add: parse_netflow_packet_def unpack_header [OF len] header_version Let_def
        split: if_splits sum.splits)
qed

section \<open>The decoder on well-formed version 5 datagrams\<close>

text \<open>
  C1. A datagram whose version field is 5, whose flow count field is \<open>N\<close> and
  whose length is \<open>header_len + N * flow_len\<close> is decoded without any log
  message into a packet with version 5, flow count \<open>N\<close> and exactly \<open>N\<close>
  flow records in wire order: record \<open>i\<close> is the record read at offset
  \<open>header_len + i * flow_len\<close>, each of its eight fields being the big-endian
  integer at the field's fixed offset (\<open>wire_flow\<close>).
\<close>

theorem parse_valid_v5:
  assumes "be_uint (py_slice 0 2 d) = 5" "be_uint (py_slice 2 4 d) = int N" "length d = header_len + N * flow_len"
  shows "parse_netflow_packet d = ([], Inr (Some
     \<lparr>header = \<lparr>version = 5, nflows = int N\<rparr>,
      flows = map (\<lambda>i. wire_flow d (header_len + i * flow_len)) [0..<N]\<rparr>))"
proof -
  have len: "24 \<le> length d" using assms(3) by (simp add: header_len_eq)
  have ne: "d \<noteq> []" using len by auto
  have fl: "parse_flows d [0..<N] [] = Inr (map (\<lambda>i. wire_flow d (header_len + i * flow_len)) [0..<N])"
    using parse_flows_ok [of "[0..<N]" d "[]"] assms(3) by (simp add: flow_len_eq)
  show ?thesis
    using ne assms fl
    by (simp add: parse_netflow_packet_def unpack_header [OF len] header_version header_nflows Let_def)
qed

theorem parse_valid_v5_witness:
  "parse_netflow_packet sample_datagram = ([], Inr (Some
     \<lparr>header = \<lparr>version = 5, nflows = 2\<rparr>,
      flows =
        [\<lparr>src_addr = 167772161, dst_addr = 167772162, src_port = 1234, dst_port = 80,
          npackets = 100, nbytes = 6000, tcpflags = 18, proto = 6\<rparr>,
         \<lparr>src_addr = 167772163, dst_addr = 167772162, src_port = 5555, dst_port = 80,
          npackets = 50, nbytes = 3000, tcpflags = 16, proto = 6\<rparr>]\<rparr>))"
proof -
  have idx: "[0..<2::nat] = [0, 1]" by code_simp
  show ?thesis
    using parse_valid_v5 [of sample_datagram 2]
    by (simp add: idx sample_datagram_def be_uint_def py_slice_def wire_flow_def header_len_eq
        flow_len_eq)
qed

section \<open>What the decoder does on other inputs\<close>

lemma struct_unpack_error: "struct_unpack fmt buf = Inl e \<Longrightarrow> e = StructError"
  by (auto simp add: struct_unpack_def split: if_splits)

lemma parse_flows_error: "parse_flows d ixs fl = Inl e \<Longrightarrow> e = StructError"
  by (induction ixs arbitrary: fl) (auto simp add: Let_def split: sum.splits dest: struct_unpack_error)

lemma parse_error: "snd (parse_netflow_packet d) = Inl e \<Longrightarrow> e = StructError"
  by (auto simp add: parse_netflow_packet_def Let_def split: if_splits sum.splits
      dest: struct_unpack_error parse_flows_error)

lemma parse_v5_long_enough:
  assumes "be_uint (py_slice 0 2 d) = 5" "be_uint (py_slice 2 4 d) = int N"
    and "header_len + N * flow_len \<le> length d"
  shows "parse_netflow_packet d =
     (if length d = header_len + N * flow_len then [] else [MalformedPacket],
      Inr (Some \<lparr>header = \<lparr>version = 5, nflows = int N\<rparr>,
                 flows = map (\<lambda>i. wire_flow d (header_len + i * flow_len)) [0..<N]\<rparr>))"
proof -
  have len: "24 \<le> length d" using assms(3) by (simp add: header_len_eq)
  have ne: "d \<noteq> []" using len by auto
  have "\<forall>i\<in>set [0..<N]. header_len + (i + 1) * flow_len \<le> length d"
  proof
    fix i assume "i \<in> set [0..<N]"
    then have "i + 1 \<le> N" by simp
    then have "(i + 1) * flow_len \<le> N * flow_len" by (rule mult_le_mono1)
    then show "header_len + (i + 1) * flow_len \<le> length d" using assms(3) by linarith
  qed
  then have fl: "parse_flows d [0..<N] [] = Inr (map (\<lambda>i. wire_flow d (header_len + i * flow_len)) [0..<N])"
    using parse_flows_ok [of "[0..<N]" d "[]"] by simp
  have eq: "(int (length d) = int header_len + int N * int flow_len) = (length d = header_len + N * flow_len)"
    by (metis of_nat_add of_nat_eq_iff of_nat_mult)
  show ?thesis
    using ne assms(1,2) fl eq
    by (simp add: parse_netflow_packet_def unpack_header [OF len] header_version header_nflows Let_def)
qed

lemma parse_flows_truncated:
  "\<exists>i\<in>set ixs. length d < header_len + (i + 1) * flow_len \<Longrightarrow>
   parse_flows d ixs fl = Inl StructError"
proof (induction ixs arbitrary: fl)
  case Nil
  then show ?case by simp
next
  case (Cons i rest)
  show ?case
  proof (cases "length d < header_len + (i + 1) * flow_len")
    case True
    then have "length d < header_len + i * flow_len + 48" by (simp add: flow_len_eq)
    then have "struct_unpack flow_fmt
        (py_slice (header_len + i * flow_len) (header_len + i * flow_len + flow_len) d) = Inl StructError"
      using short_slice [of d "header_len + i * flow_len"] by (simp add: flow_len_eq)
    then show ?thesis by simp
  next
    case False
    then have "\<exists>j\<in>set rest. length d < header_len + (j + 1) * flow_len"
      using Cons.prems by auto
    then have "parse_flows d rest fl' = Inl StructError" for fl' by (rule Cons.IH)
    then show ?thesis by (auto simp add: Let_def split: sum.splits dest: struct_unpack_error)
  qed
qed

lemma parse_v5_truncated:
  assumes "be_uint (py_slice 0 2 d) = 5" "be_uint (py_slice 2 4 d) = int N"
    and "header_len \<le> length d" "length d < header_len + N * flow_len"
  shows "parse_netflow_packet d = ([MalformedPacket], Inl StructError)"
proof -
  have len: "24 \<le> length d" using assms(3) by (simp add: header_len_eq)
  have ne: "d \<noteq> []" using len by auto
  have pos: "0 < N" using assms(3,4) by (cases N) auto
  then have "N - 1 \<in> set [0..<N] \<and> length d < header_len + (N - 1 + 1) * flow_len"
    using assms(4) by simp
  then have "\<exists>i\<in>set [0..<N]. length d < header_len + (i + 1) * flow_len" by blast
  then have fl: "parse_flows d [0..<N] [] = Inl StructError" by (rule parse_flows_truncated)
  have neq: "int (length d) \<noteq> int header_len + int N * int flow_len"
    using assms(4) by (metis less_irrefl of_nat_add of_nat_eq_iff of_nat_mult)
  show ?thesis
    using ne assms(1,2) fl neq
    by (simp add: parse_netflow_packet_def unpack_header [OF len] header_version header_nflows Let_def)
qed

lemma sample_decodes: "parse_netflow_packet sample_datagram = ([], Inr (Some sample_packet))"
proof -
  have idx: "[0..<2::nat] = [0, 1]" by code_simp
  have "be_uint (py_slice 0 2 sample_datagram) = 5 \<and> be_uint (py_slice 2 4 sample_datagram) = int 2"
    by (simp add: sample_datagram_def be_uint_def py_slice_def)
  then show ?thesis
    using parse_v5_long_enough [of sample_datagram 2]
    by (simp add: idx sample_datagram_def sample_packet_def be_uint_def py_slice_def wire_flow_def
        header_len_eq flow_len_eq)
qed

section \<open>The dispatch loop: single events and iterations\<close>

lemma nfp_call_parse_packet: "nfp_call ''parse_packet'' recv_data = ([], Inl AttributeError)"
  by (simp add: nfp_call_def NetflowParser_methods_def)

lemma nfp_call_parse_netflow_packet:
  "nfp_call ''parse_netflow_packet'' recv_data = parse_netflow_packet recv_data"
  by (simp add: nfp_call_def NetflowParser_methods_def)

lemma dispatch_loop_event:
  "loop_iteration (nfp_call ''parse_packet'') g (Inr [Received recv_data]) =
     g\<lparr>packets_total := packets_total g + 1, app_log := app_log g @ [LoopException AttributeError]\<rparr>"
  by (simp add: loop_iteration_def handle_event_def nfp_call_parse_packet)

lemma dispatch_loop_never_decodes:
  "packets_processed (dispatch_loop g sels) = packets_processed g \<and>
   module_objects (dispatch_loop g sels) = module_objects g"
proof (induction sels arbitrary: g)
  case Nil
  then show ?case by (simp add: dispatch_loop_def)
next
  case (Cons sel sels)
  have ev: "handle_event (nfp_call ''parse_packet'') h ev =
      (case ev of
         RecvRaised e \<Rightarrow> (if e = BlockingIOError then (h, None) else (h, Some e))
       | Received d \<Rightarrow> (h\<lparr>packets_total := packets_total h + 1\<rparr>, Some AttributeError))" for h ev
    by (simp add: handle_event_def nfp_call_parse_packet split: recv_result.splits)
  have evs: "packets_processed (fst (handle_events (nfp_call ''parse_packet'') h evs)) = packets_processed h \<and>
      module_objects (fst (handle_events (nfp_call ''parse_packet'') h evs)) = module_objects h" for h evs
    by (induction evs arbitrary: h) (auto simp add: ev split: recv_result.splits)
  have it: "packets_processed (loop_iteration (nfp_call ''parse_packet'') g sel) = packets_processed g \<and>
      module_objects (loop_iteration (nfp_call ''parse_packet'') g sel) = module_objects g"
  proof (cases sel)
    case (Inl e)
    then show ?thesis by (simp add: loop_iteration_def)
  next
    case (Inr events)
    obtain h r where h: "handle_events (nfp_call ''parse_packet'') g events = (h, r)"
      by (cases "handle_events (nfp_call ''parse_packet'') g events")
    then show ?thesis using Inr evs [of g events] by (cases r) (auto simp add: loop_iteration_def)
  qed
  show ?case using Cons.IH [of "loop_iteration (nfp_call ''parse_packet'') g sel"] it
    by (simp add: dispatch_loop_def)
qed


lemma handle_event_no_packet:
  assumes "parse d = (lg, Inr None)"
  shows "handle_event parse g (Received d) =
     (g\<lparr>packets_total := packets_total g + 1, app_log := app_log g @ lg\<rparr>, None)"
  using assms by (simp add: handle_event_def)

lemma loop_iteration_raise:
  assumes "parse d = (lg, Inl e)"
  shows "loop_iteration parse g (Inr [Received d]) =
     g\<lparr>packets_total := packets_total g + 1, app_log := app_log g @ lg @ [LoopException e]\<rparr>"
  using assms by (simp add: loop_iteration_def handle_event_def)

lemma send_to_modules_counters:
  "packets_total (send_to_modules pack ns g) = packets_total g \<and>
   packets_processed (send_to_modules pack ns g) = packets_processed g"
  by (induction ns arbitrary: g) (auto split: option.splits sum.splits)

lemma handle_event_total:
  "packets_total (fst (handle_event parse g ev)) =
     packets_total g + (case ev of Received d \<Rightarrow> 1 | RecvRaised e \<Rightarrow> 0)"
  by (auto simp add: handle_event_def Let_def send_to_modules_counters
      split: recv_result.splits prod.splits sum.splits option.splits)

lemma handle_event_processed:
  "packets_processed (fst (handle_event parse g ev)) =
     packets_processed g +
       (case ev of
          Received d \<Rightarrow> (case snd (parse d) of Inr (Some p) \<Rightarrow> 1 | Inr None \<Rightarrow> 0 | Inl e \<Rightarrow> 0)
        | RecvRaised e \<Rightarrow> 0)"
  by (auto simp add: handle_event_def Let_def send_to_modules_counters
      split: recv_result.splits prod.splits sum.splits option.splits)

lemma handle_event_inv:
  assumes "packets_processed g \<le> packets_total g"
  shows "packets_processed (fst (handle_event parse g ev)) \<le> packets_total (fst (handle_event parse g ev))"
  using assms unfolding handle_event_total handle_event_processed
  by (auto split: recv_result.splits sum.splits option.splits)

lemma handle_events_inv:
  "packets_processed g \<le> packets_total g \<Longrightarrow>
   packets_processed (fst (handle_events parse g evs)) \<le> packets_total (fst (handle_events parse g evs))"
proof (induction evs arbitrary: g)
  case Nil
  then show ?case by simp
next
  case (Cons ev evs)
  obtain g' r where h: "handle_event parse g ev = (g', r)" by (cases "handle_event parse g ev")
  have "packets_processed g' \<le> packets_total g'"
    using handle_event_inv [OF Cons.prems, of parse ev] h by simp
  then show ?case using Cons.IH [of g'] h by (cases r) auto
qed

lemma loop_iteration_inv:
  assumes "packets_processed g \<le> packets_total g"
  shows "packets_processed (loop_iteration parse g sel) \<le> packets_total (loop_iteration parse g sel)"
proof (cases sel)
  case (Inl e)
  then show ?thesis using assms by (simp add: loop_iteration_def)
next
  case (Inr events)
  obtain g' r where h: "handle_events parse g events = (g', r)" by (cases "handle_events parse g events")
  have "packets_processed g' \<le> packets_total g'"
    using handle_events_inv [OF assms, of parse events] h by simp
  then show ?thesis using Inr h by (cases r) (auto simp add: loop_iteration_def)
qed

lemma main_loop_inv:
  "packets_processed g \<le> packets_total g \<Longrightarrow>
   packets_processed (main_loop parse g sels) \<le> packets_total (main_loop parse g sels)"
  by (induction sels arbitrary: g) (auto intro: loop_iteration_inv)


lemma map_of_middle: "n \<notin> fst ` set pre \<Longrightarrow> map_of (pre @ (n, m) # post) n = Some m"
  by (induction pre) auto


lemma dispatch_loop_sample:
  "dispatch_loop (initial_state sample_modules) sample_run =
     \<lparr>packets_processed = 0, packets_total = 2, module_objects = sample_modules,
      app_log = [LoopException AttributeError, LoopException AttributeError, LoopException OSError]\<rparr>"
  by (simp add: dispatch_loop_def sample_run_def loop_iteration_def handle_event_def
      nfp_call_parse_packet initial_state_def)

lemma decoder_loop_sample:
  "main_loop parse_netflow_packet (initial_state sample_modules) sample_run =
     \<lparr>packets_processed = 1, packets_total = 2,
      module_objects =
        [(''a'', \<lparr>name = ''a'', module_output_queue = \<lparr>q_items = [sample_packet], q_closed = False\<rparr>\<rparr>),
         (''b'', \<lparr>name = ''b'', module_output_queue = \<lparr>q_items = [], q_closed = True\<rparr>\<rparr>),
         (''c'', \<lparr>name = ''c'', module_output_queue = \<lparr>q_items = [sample_packet], q_closed = False\<rparr>\<rparr>)],
      app_log = [PutFailed ''b'' ValueError, LoopException StructError, LoopException OSError]\<rparr>"
proof -
  have short: "parse_netflow_packet [0, 5, 0] = ([], Inl StructError)"
    using parse_short [of "[0, 5, 0]"] by (simp add: header_len_eq)
  show ?thesis
    by (simp add: sample_run_def loop_iteration_def handle_event_def sample_decodes short
        initial_state_def sample_modules_def queue_put_def)
qed

section \<open>Datagrams the decoder does not turn into a packet\<close>

text \<open>
  C8. A datagram whose version field (the big-endian integer of its first two
  bytes) is not 5 never yields a packet, whatever its length. When it holds a
  header (at least \<open>header_len\<close> bytes) the decoder logs the version and
  returns \<open>None\<close>, whatever the flow count and the bytes after the header
  are: the record loop is not entered, so neither the size check nor an unpack of
  a record can log or raise. The loop body run with this decoder counts the
  datagram in \<open>packets_total\<close> only: \<open>packets_processed\<close> and every
  module queue stay as they are.
\<close>

theorem wrong_version_rejected:
  assumes "be_uint (py_slice 0 2 d) \<noteq> 5"
  shows "(\<forall>p. snd (parse_netflow_packet d) \<noteq> Inr (Some p)) \<and>
     (header_len \<le> length d \<longrightarrow>
        parse_netflow_packet d = ([WrongVersion (be_uint (py_slice 0 2 d))], Inr None) \<and>
        handle_event parse_netflow_packet g (Received d) =
          (g\<lparr>packets_total := packets_total g + 1,
             app_log := app_log g @ [WrongVersion (be_uint (py_slice 0 2 d))]\<rparr>, None))"
proof (intro conjI allI impI)
  fix p
  show "snd (parse_netflow_packet d) \<noteq> Inr (Some p)"
    using assms parse_packet_is_v5 [of d p] by auto
next
  assume len: "header_len \<le> length d"
  show r: "parse_netflow_packet d = ([WrongVersion (be_uint (py_slice 0 2 d))], Inr None)"
    using len assms by (rule parse_wrong_version)
  show "handle_event parse_netflow_packet g (Received d) =
          (g\<lparr>packets_total := packets_total g + 1,
             app_log := app_log g @ [WrongVersion (be_uint (py_slice 0 2 d))]\<rparr>, None)"
    using r by (rule handle_event_no_packet)
qed

theorem wrong_version_rejected_witness:
  "be_uint (py_slice 0 2 version9_datagram) \<noteq> 5 \<and> header_len \<le> length version9_datagram \<and>
   parse_netflow_packet version9_datagram = ([WrongVersion 9], Inr None) \<and>
   handle_event parse_netflow_packet (initial_state sample_modules) (Received version9_datagram) =
     (\<lparr>packets_processed = 0, packets_total = 1, module_objects = sample_modules,
       app_log = [WrongVersion 9]\<rparr>, None)"
proof -
  have v: "be_uint (py_slice 0 2 version9_datagram) = 9"
    by (simp add: version9_datagram_def be_uint_def py_slice_def)
  have l: "header_len \<le> length version9_datagram"
    by (simp add: version9_datagram_def header_len_eq)
  show ?thesis
    using wrong_version_rejected [of version9_datagram "initial_state sample_modules"] v l
    by (simp add: initial_state_def)
qed

text \<open>
  C2. The claim asks that a datagram whose length differs from
  \<open>header_len + nflows * flow_len\<close> is rejected. The decoder logs
  \<open>Malformed packet received\<close> for it and then parses the records all the
  same: the 25 byte datagram \<open>trailing_datagram\<close> (version 5, no flow
  record, one trailing byte) is returned as a packet.
\<close>

theorem trailing_bytes_accepted:
  "parse_netflow_packet trailing_datagram =
     ([MalformedPacket], Inr (Some \<lparr>header = \<lparr>version = 5, nflows = 0\<rparr>, flows = []\<rparr>))"
  by (simp add: parse_netflow_packet_def trailing_datagram_def struct_unpack_def py_slice_def
      header_len_eq flow_len_eq header_len_eq [unfolded header_len_def] header_fields_eq be_uint_def)

text \<open>
  C9, as claimed, fails: a non-empty input shorter than the header makes
  \<open>struct.unpack\<close> raise inside \<open>parse_netflow_packet\<close>.
\<close>

theorem short_input_raises: "snd (parse_netflow_packet [0, 5, 0]) = Inl StructError"
  using parse_short [of "[0, 5, 0]"] by (simp add: header_len_eq)

text \<open>
  C9, amended. \<open>parse_netflow_packet\<close> checks only that the input is not
  empty. It returns \<open>None\<close> for the empty input and for an input of at least
  \<open>header_len\<close> bytes whose version is not 5, and it returns a packet for
  a version 5 datagram of exactly \<open>header_len + N * flow_len\<close> bytes. A
  non-empty input shorter than the header raises \<open>struct.error\<close>. The only
  exception the decoder raises is \<open>struct.error\<close>, and it does not stop the
  loop: an iteration that receives such a datagram with this decoder counts it in
  \<open>packets_total\<close>, keeps what the decoder logged, logs the exception in
  the handler of line 220 and changes nothing else.
\<close>

theorem parse_returns_or_struct_error:
  "(d = [] \<longrightarrow> parse_netflow_packet d = ([], Inr None)) \<and>
   (d \<noteq> [] \<and> length d < header_len \<longrightarrow> parse_netflow_packet d = ([], Inl StructError)) \<and>
   (header_len \<le> length d \<and> be_uint (py_slice 0 2 d) \<noteq> 5 \<longrightarrow>
      snd (parse_netflow_packet d) = Inr None) \<and>
   (be_uint (py_slice 0 2 d) = 5 \<and> be_uint (py_slice 2 4 d) = int N \<and>
    length d = header_len + N * flow_len \<longrightarrow>
      (\<exists>p. parse_netflow_packet d = ([], Inr (Some p)))) \<and>
   (snd (parse_netflow_packet d) = Inl e \<longrightarrow>
      e = StructError \<and>
      loop_iteration parse_netflow_packet g (Inr [Received d]) =
        g\<lparr>packets_total := packets_total g + 1,
          app_log := app_log g @ fst (parse_netflow_packet d) @ [LoopException StructError]\<rparr>)"
proof (intro conjI impI)
  assume "d = []"
  then show "parse_netflow_packet d = ([], Inr None)" by (simp add: parse_empty)
next
  assume "d \<noteq> [] \<and> length d < header_len"
  then show "parse_netflow_packet d = ([], Inl StructError)" by (simp add: parse_short)
next
  assume "header_len \<le> length d \<and> be_uint (py_slice 0 2 d) \<noteq> 5"
  then show "snd (parse_netflow_packet d) = Inr None" by (simp add: parse_wrong_version)
next
  assume "be_uint (py_slice 0 2 d) = 5 \<and> be_uint (py_slice 2 4 d) = int N \<and>
    length d = header_len + N * flow_len"
  then show "\<exists>p. parse_netflow_packet d = ([], Inr (Some p))"
    using parse_v5_long_enough [of d N] by simp
next
  assume r: "snd (parse_netflow_packet d) = Inl e"
  then show e: "e = StructError" by (rule parse_error)
  have "parse_netflow_packet d = (fst (parse_netflow_packet d), Inl StructError)"
    using r e by (cases "parse_netflow_packet d") simp
  then show "loop_iteration parse_netflow_packet g (Inr [Received d]) =
        g\<lparr>packets_total := packets_total g + 1,
          app_log := app_log g @ fst (parse_netflow_packet d) @ [LoopException StructError]\<rparr>"
    by (rule loop_iteration_raise)
qed

theorem parse_returns_or_struct_error_witness:
  "[0, 5, 0] \<noteq> ([] :: byte list) \<and> length [0, 5, 0 :: byte] < header_len \<and>
   parse_netflow_packet [0, 5, 0] = ([], Inl StructError) \<and>
   loop_iteration parse_netflow_packet (initial_state sample_modules) (Inr [Received [0, 5, 0]]) =
     \<lparr>packets_processed = 0, packets_total = 1, module_objects = sample_modules,
      app_log = [LoopException StructError]\<rparr>"
  using parse_returns_or_struct_error [of "[0, 5, 0]" 0 StructError "initial_state sample_modules"]
  by (simp add: header_len_eq initial_state_def)

section \<open>Fan-out and the counters\<close>




text \<open>
  C5. If \<open>packets_processed \<le> packets_total\<close> holds before the loop (both
  are 0 at start), it holds after any sequence of iterations, for any callable
  \<open>parse\<close> invoked at line 211, any results of \<open>select\<close> and
  \<open>recvfrom\<close> and any exceptions. One event adds 1 to
  \<open>packets_total\<close> exactly when \<open>recvfrom\<close> returned a datagram, and 1
  to \<open>packets_processed\<close> exactly when moreover \<open>parse\<close> returned a
  packet.
\<close>

theorem counters_invariant:
  assumes "packets_processed g \<le> packets_total g"
  shows "packets_processed (main_loop parse g sels) \<le> packets_total (main_loop parse g sels) \<and>
         packets_total (fst (handle_event parse g ev)) =
           packets_total g + (case ev of Received d \<Rightarrow> 1 | RecvRaised e \<Rightarrow> 0) \<and>
         packets_processed (fst (handle_event parse g ev)) =
           packets_processed g +
             (case ev of
                Received d \<Rightarrow> (case snd (parse d) of Inr (Some p) \<Rightarrow> 1 | Inr None \<Rightarrow> 0 | Inl e \<Rightarrow> 0)
              | RecvRaised e \<Rightarrow> 0)"
proof (intro conjI)
  show "packets_processed (main_loop parse g sels) \<le> packets_total (main_loop parse g sels)"
    using assms by (rule main_loop_inv)
  show "packets_total (fst (handle_event parse g ev)) =
           packets_total g + (case ev of Received d \<Rightarrow> 1 | RecvRaised e \<Rightarrow> 0)"
    by (rule handle_event_total)
  show "packets_processed (fst (handle_event parse g ev)) =
           packets_processed g +
             (case ev of
                Received d \<Rightarrow> (case snd (parse d) of Inr (Some p) \<Rightarrow> 1 | Inr None \<Rightarrow> 0 | Inl e \<Rightarrow> 0)
              | RecvRaised e \<Rightarrow> 0)"
    by (rule handle_event_processed)
qed

theorem counters_invariant_witness:
  "packets_processed (initial_state sample_modules) \<le> packets_total (initial_state sample_modules) \<and>
   packets_processed (main_loop (nfp_call ''parse_packet'') (initial_state sample_modules) sample_run)
     \<le> packets_total (main_loop (nfp_call ''parse_packet'') (initial_state sample_modules) sample_run) \<and>
   packets_processed (dispatch_loop (initial_state sample_modules) sample_run) = 0 \<and>
   packets_total (dispatch_loop (initial_state sample_modules) sample_run) = 2 \<and>
   packets_processed (main_loop parse_netflow_packet (initial_state sample_modules) sample_run) = 1 \<and>
   packets_total (main_loop parse_netflow_packet (initial_state sample_modules) sample_run) = 2"
  using counters_invariant [of "initial_state sample_modules" "nfp_call ''parse_packet''" sample_run
      "Received sample_datagram"]
  by (simp add: dispatch_loop_sample decoder_loop_sample) (simp add: initial_state_def)

section \<open>The detector: reads, accumulation and the shape of the accumulator\<close>

lemma dd_getitem_present: "map_of d k = Some v \<Longrightarrow> dd_getitem dflt d k = (v, d)"
  by (simp add: dd_getitem_def)

lemma key_present: "k \<in> fst ` set d \<Longrightarrow> \<exists>v. map_of d k = Some v"
  by (cases "map_of d k") (auto simp add: map_of_eq_None_iff)

lemma check_sources_frame:
  "map_of (ips_state self) dst = Some (DictVal srcs) \<Longrightarrow> set keys \<subseteq> fst ` set srcs \<Longrightarrow>
   snd (check_sources self dst keys) = self"
proof (induction keys)
  case Nil
  then show ?case by simp
next
  case (Cons src rest)
  obtain c where c: "map_of srcs src = Some c" using Cons.prems(2) key_present [of src srcs] by auto
  have outer: "dd_getitem (IntVal 0) (ips_state self) dst = (DictVal srcs, ips_state self)"
    using Cons.prems(1) by (rule dd_getitem_present)
  have inner: "dd_getitem 0 srcs src = (c, srcs)"
    using c by (rule dd_getitem_present)
  have same: "self\<lparr>ips_state := AList.update dst (DictVal srcs) (ips_state self)\<rparr> = self"
    using Cons.prems(1) by (simp add: AList.update_triv)
  have "snd (check_sources self dst rest) = self" using Cons by simp
  then show ?case by (simp add: outer inner same)
qed

lemma detect_loop_frame:
  "set keys \<subseteq> fst ` set (ips_state self) \<Longrightarrow> snd (detect_loop self keys targets) = self"
proof (induction keys arbitrary: targets)
  case Nil
  then show ?case by simp
next
  case (Cons dst rest)
  obtain v where v: "map_of (ips_state self) dst = Some v"
    using Cons.prems key_present [of dst "ips_state self"] by auto
  have rest: "set rest \<subseteq> fst ` set (ips_state self)" using Cons.prems by simp
  show ?case
  proof (cases v)
    case (IntVal n)
    then show ?thesis using v by (simp add: dd_getitem_present [OF v])
  next
    case (DictVal srcs)
    have look: "map_of (ips_state self) dst = Some (DictVal srcs)" using v DictVal by simp
    obtain r s where cs: "check_sources self dst (map fst srcs) = (r, s)"
      by (cases "check_sources self dst (map fst srcs)")
    have "s = self" using check_sources_frame [OF look, of "map fst srcs"] cs by simp
    then show ?thesis
      using Cons.IH [OF rest] cs
      by (cases r) (simp_all add: dd_getitem_present [OF look])
  qed
qed

lemma check_sources_exact:
  "map_of (ips_state self) dst = Some (DictVal (pre @ post)) \<Longrightarrow> distinct (map fst (pre @ post)) \<Longrightarrow>
   check_sources self dst (map fst post) =
     (Inr (list_all (\<lambda>(src, c). min_packets_per_source self \<le> c) post), self)"
proof (induction post arbitrary: pre)
  case Nil
  then show ?case by simp
next
  case (Cons sc post)
  obtain src c where sc: "sc = (src, c)" by (cases sc)
  have notin: "src \<notin> fst ` set pre" using Cons.prems(2) sc by auto
  have look: "map_of (ips_state self) dst = Some (DictVal (pre @ (src, c) # post))"
    using Cons.prems(1) sc by simp
  have outer: "dd_getitem (IntVal 0) (ips_state self) dst = (DictVal (pre @ (src, c) # post), ips_state self)"
    using look by (rule dd_getitem_present)
  have inner: "dd_getitem 0 (pre @ (src, c) # post) src = (c, pre @ (src, c) # post)"
    using map_of_middle [OF notin] by (rule dd_getitem_present)
  have same: "self\<lparr>ips_state := AList.update dst (DictVal (pre @ (src, c) # post)) (ips_state self)\<rparr> = self"
    using look by (simp add: AList.update_triv)
  have ih: "check_sources self dst (map fst post) =
     (Inr (list_all (\<lambda>(src, c). min_packets_per_source self \<le> c) post), self)"
    using Cons.IH [of "pre @ [sc]"] Cons.prems by simp
  show ?case
    unfolding sc by (simp add: outer inner same ih)
qed

lemma detect_loop_exact:
  "ips_state self = pre @ post \<Longrightarrow> dict_ok (pre @ post) \<Longrightarrow>
   detect_loop self (map fst post) targets =
     (Inr (targets @ map fst (filter (\<lambda>(dst, v). suspected self v) post)), self)"
proof (induction post arbitrary: pre targets)
  case Nil
  then show ?case by simp
next
  case (Cons dv post)
  obtain dst v where dv: "dv = (dst, v)" by (cases dv)
  have notin: "dst \<notin> fst ` set pre" using Cons.prems(2) dv by (auto simp add: dict_ok_def)
  obtain srcs where v: "v = DictVal srcs" and ds: "distinct (map fst srcs)"
    using Cons.prems(2) dv by (cases v) (auto simp add: dict_ok_def)
  have look: "map_of (ips_state self) dst = Some (DictVal srcs)"
    using Cons.prems(1) dv v map_of_middle [OF notin] by simp
  have cs: "check_sources self dst (map fst srcs) =
     (Inr (list_all (\<lambda>(src, c). min_packets_per_source self \<le> c) srcs), self)"
    using check_sources_exact [of self dst "[]" srcs] look ds by simp
  have ih: "detect_loop self (map fst post) t =
     (Inr (t @ map fst (filter (\<lambda>(dst, v). suspected self v) post)), self)" for t
    using Cons.IH [of "pre @ [dv]" t] Cons.prems by simp
  show ?case
    using cs ih dv v
    by (simp add: dd_getitem_present [OF look] suspected_def)
qed

lemma detect_exact:
  assumes "dict_ok (ips_state self)"
  shows "detect_ddos_targets self =
     (Inr (map fst (filter (\<lambda>(dst, v). suspected self v) (ips_state self))), self)"
  using detect_loop_exact [of self "[]" "ips_state self" "[]"] assms
  by (simp add: detect_ddos_targets_def)


lemma update_new_key: "map_of d k = None \<Longrightarrow> AList.update k v d = d @ [(k, v)]"
  by (induction d) (auto split: if_splits)

lemma dd_getitem_absent: "map_of d k = None \<Longrightarrow> dd_getitem dflt d k = (dflt, AList.update k dflt d)"
  by (simp add: dd_getitem_def update_new_key)

lemma list_all_update:
  "list_all (\<lambda>(k, v). Q v) al \<Longrightarrow> Q v \<Longrightarrow> list_all (\<lambda>(k, v). Q v) (AList.update k v al)"
  by (induction al) auto

lemma dict_ok_lookup:
  "dict_ok st \<Longrightarrow> map_of st dst = Some v \<Longrightarrow> \<exists>srcs. v = DictVal srcs \<and> distinct (map fst srcs)"
proof -
  assume ok: "dict_ok st" and look: "map_of st dst = Some v"
  have "(dst, v) \<in> set st" using look by (rule map_of_SomeD)
  then show ?thesis using ok by (cases v) (auto simp add: dict_ok_def list_all_iff)
qed

lemma update_flow_ok:
  assumes "dict_ok (ips_state self)" "npackets f \<noteq> 0"
  shows "update_flow self f =
     (None,
      if real_of_int (nbytes f) / real_of_int (npackets f) < max_avg_packet_size self
      then self\<lparr>ips_state := accrue (ips_state self) (dst_addr f) (src_addr f) (npackets f)\<rparr>
      else self)"
proof (cases "map_of (ips_state self) (dst_addr f)")
  case None
  have g: "dd_getitem (IntVal 0) (AList.update (dst_addr f) (DictVal []) (ips_state self)) (dst_addr f)
      = (DictVal [], AList.update (dst_addr f) (DictVal []) (ips_state self))"
    by (rule dd_getitem_present) (simp add: AList.update_conv')
  show ?thesis
    using None assms(2)
    by (simp add: update_flow_def truediv_def Let_def g dd_getitem_absent accrue_def)
next
  case (Some v)
  obtain srcs where v: "v = DictVal srcs" using dict_ok_lookup [OF assms(1) Some] by auto
  have g: "dd_getitem (IntVal 0) (ips_state self) (dst_addr f) = (DictVal srcs, ips_state self)"
    using Some v by (simp add: dd_getitem_present)
  show ?thesis
  proof (cases "map_of srcs (src_addr f)")
    case None
    then show ?thesis
      using Some v assms(2)
      by (simp add: update_flow_def truediv_def Let_def g dd_getitem_absent accrue_def)
  next
    case (Some c)
    then show ?thesis
      using \<open>map_of (ips_state self) (dst_addr f) = Some v\<close> v assms(2)
      by (simp add: update_flow_def truediv_def Let_def g dd_getitem_present accrue_def)
  qed
qed

lemma update_flow_zero: "npackets f = 0 \<Longrightarrow> update_flow self f = (Some ZeroDivisionError, self)"
  by (simp add: update_flow_def truediv_def)

lemma dict_ok_accrue: "dict_ok st \<Longrightarrow> dict_ok (accrue st dst src n)"
proof -
  assume ok: "dict_ok st"
  let ?srcs = "case map_of st dst of Some (DictVal s) \<Rightarrow> s | _ \<Rightarrow> []"
  have "distinct (map fst ?srcs)"
    using dict_ok_lookup [OF ok, of dst] by (auto split: option.splits dval.splits)
  then have d: "distinct (map fst (AList.update src v ?srcs))" for v
    by (rule AList.distinct_update)
  show ?thesis
    using ok d unfolding dict_ok_def accrue_def Let_def
    by (auto intro!: AList.distinct_update list_all_update)
qed

lemma dict_ok_update_flow:
  "dict_ok (ips_state self) \<Longrightarrow> dict_ok (ips_state (snd (update_flow self f)))"
  by (cases "npackets f = 0") (auto simp add: update_flow_zero update_flow_ok dict_ok_accrue)

lemma dict_ok_update_flows:
  "dict_ok (ips_state self) \<Longrightarrow> dict_ok (ips_state (snd (update_flows self fs)))"
proof (induction fs arbitrary: self)
  case Nil
  then show ?case by simp
next
  case (Cons f fs)
  obtain r s where u: "update_flow self f = (r, s)" by (cases "update_flow self f")
  have "dict_ok (ips_state s)" using dict_ok_update_flow [OF Cons.prems, of f] u by simp
  then show ?case using Cons.IH [of s] u Cons.prems by (cases r) auto
qed

lemma dict_ok_update_state:
  "dict_ok (ips_state self) \<Longrightarrow> dict_ok (ips_state (snd (update_state self pack)))"
  unfolding update_state_def by (rule dict_ok_update_flows)

lemma sources_of_accrue:
  assumes "dict_ok st"
  shows "sources_of (accrue st dst src n) d s =
     (if d = dst \<and> s = src
      then Some ((case sources_of st dst src of Some c \<Rightarrow> c | None \<Rightarrow> 0) + n)
      else sources_of st d s)"
proof (cases "map_of st dst")
  case None
  then show ?thesis by (simp add: sources_of_def accrue_def AList.update_conv')
next
  case (Some v)
  obtain srcs where v: "v = DictVal srcs" using dict_ok_lookup [OF assms Some] by auto
  show ?thesis using Some v by (simp add: sources_of_def accrue_def AList.update_conv')
qed

lemma update_flow_config:
  "analysis_interval (snd (update_flow self f)) = analysis_interval self \<and>
   ips_threshold (snd (update_flow self f)) = ips_threshold self \<and>
   max_avg_packet_size (snd (update_flow self f)) = max_avg_packet_size self \<and>
   min_packets_per_source (snd (update_flow self f)) = min_packets_per_source self \<and>
   start_ts (snd (update_flow self f)) = start_ts self"
  by (auto simp add: update_flow_def Let_def split: sum.splits prod.splits dval.splits)

lemma update_flow_only_state:
  "snd (update_flow self f) = self\<lparr>ips_state := ips_state (snd (update_flow self f))\<rparr>"
  by (auto simp add: update_flow_def Let_def split: sum.splits prod.splits dval.splits)

lemma update_flows_only_state:
  "snd (update_flows self fs) = self\<lparr>ips_state := ips_state (snd (update_flows self fs))\<rparr>"
proof (induction fs arbitrary: self)
  case Nil
  then show ?case by simp
next
  case (Cons f fs)
  obtain r s where u: "update_flow self f = (r, s)" by (cases "update_flow self f")
  have s: "s = self\<lparr>ips_state := ips_state s\<rparr>" using update_flow_only_state [of self f] u by simp
  show ?case
  proof (cases r)
    case None
    have "snd (update_flows s fs) = s\<lparr>ips_state := ips_state (snd (update_flows s fs))\<rparr>"
      by (rule Cons.IH)
    then have "snd (update_flows s fs) = self\<lparr>ips_state := ips_state (snd (update_flows s fs))\<rparr>"
      using s by (metis SimpleDDoSDetector.update_convs(5) SimpleDDoSDetector.surjective)
    then show ?thesis using u None by simp
  next
    case (Some e)
    then show ?thesis using u s by simp
  qed
qed


lemma update_sample: "update_state sample_detector sample_packet = (None, loaded_detector)"
  by (simp add: update_state_def sample_packet_def update_flow_def truediv_def Let_def
      sample_detector_def SimpleDDoSDetector_init_def loaded_detector_def dd_getitem_def)

lemma update_flows_raise_iff:
  "dict_ok (ips_state self) \<Longrightarrow>
   fst (update_flows self fs) = (if list_ex (\<lambda>f. npackets f = 0) fs then Some ZeroDivisionError else None)"
proof (induction fs arbitrary: self)
  case Nil
  then show ?case by simp
next
  case (Cons f fs)
  show ?case
  proof (cases "npackets f = 0")
    case True
    then show ?thesis by (simp add: update_flow_zero)
  next
    case False
    obtain s where u: "update_flow self f = (None, s)"
      using update_flow_ok [OF Cons.prems False] by simp
    have "dict_ok (ips_state s)" using dict_ok_update_flow [OF Cons.prems, of f] u by simp
    then show ?thesis using Cons.IH [of s] u False by simp
  qed
qed

lemma dict_ok_accrue_flow: "dict_ok st \<Longrightarrow> dict_ok (accrue_flow self st f)"
  by (simp add: accrue_flow_def dict_ok_accrue)

lemma accrue_flow_state: "accrue_flow (self\<lparr>ips_state := st'\<rparr>) = accrue_flow self"
  by (intro ext) (simp add: accrue_flow_def)

lemma update_flows_accumulate:
  "dict_ok (ips_state self) \<Longrightarrow> \<not> list_ex (\<lambda>f. npackets f = 0) fs \<Longrightarrow>
   update_flows self fs = (None, self\<lparr>ips_state := foldl (accrue_flow self) (ips_state self) fs\<rparr>)"
proof (induction fs arbitrary: self)
  case Nil
  then show ?case by simp
next
  case (Cons f fs)
  have nz: "npackets f \<noteq> 0" and rest: "\<not> list_ex (\<lambda>f. npackets f = 0) fs"
    using Cons.prems(2) by simp_all
  let ?s = "self\<lparr>ips_state := accrue_flow self (ips_state self) f\<rparr>"
  have u: "update_flow self f = (None, ?s)"
    using update_flow_ok [OF Cons.prems(1) nz] by (simp add: accrue_flow_def)
  have ok: "dict_ok (ips_state ?s)" using Cons.prems(1) by (simp add: dict_ok_accrue_flow)
  show ?case
    using Cons.IH [OF ok rest] u by (simp add: accrue_flow_state)
qed

lemma update_state_accumulates:
  assumes "dict_ok (ips_state self)" "\<not> list_ex (\<lambda>f. npackets f = 0) (flows pack)"
  shows "update_state self pack =
     (None, self\<lparr>ips_state := foldl (accrue_flow self) (ips_state self) (flows pack)\<rparr>)"
  using assms unfolding update_state_def by (rule update_flows_accumulate)

section \<open>Evaluation, the window and the packet count\<close>

text \<open>
  C10. For every detector, whatever its accumulator holds,
  \<open>detect_ddos_targets\<close> returns the detector it was given: every subscript
  of the evaluation reads a key that is present, so no read inserts a destination
  or a source and no count changes. The configuration and \<open>start_ts\<close> are
  untouched as well.
\<close>

theorem detect_ddos_targets_read_only: "snd (detect_ddos_targets self) = self"
  unfolding detect_ddos_targets_def by (rule detect_loop_frame) simp

text \<open>
  C6. On an accumulator that is a dictionary of dictionaries (\<open>dict_ok\<close>,
  which \<open>update_state\<close> keeps, lemma \<open>dict_ok_update_state\<close>),
  \<open>detect_ddos_targets\<close> returns, in key order and each once, exactly the
  destinations that pass the test \<open>suspected\<close>. A destination is returned
  if and only if it is a key of the accumulator, the number of its distinct
  sources is greater than \<open>ips_threshold\<close>, and every source that
  contributed to it has accrued at least \<open>min_packets_per_source\<close> packets;
  so one source below that bound keeps the destination out.
\<close>

theorem detect_ddos_targets_exact:
  assumes "dict_ok (ips_state self)"
  shows "detect_ddos_targets self = (Inr (expected_targets self), self) \<and>
     distinct (expected_targets self) \<and>
     (\<forall>dst. dst \<in> set (expected_targets self) \<longleftrightarrow>
        dst \<in> fst ` set (ips_state self) \<and>
        ips_threshold self < int (card (dom (sources_of (ips_state self) dst))) \<and>
        (\<forall>src c. sources_of (ips_state self) dst src = Some c \<longrightarrow> min_packets_per_source self \<le> c))"
proof (intro conjI allI)
  show "detect_ddos_targets self = (Inr (expected_targets self), self)"
    using assms by (simp add: detect_exact expected_targets_def)
  have dk: "distinct (map fst (ips_state self))" using assms by (simp add: dict_ok_def)
  show "distinct (expected_targets self)"
    unfolding expected_targets_def using dk by (rule distinct_map_filter)
  fix dst
  show "dst \<in> set (expected_targets self) \<longleftrightarrow>
        dst \<in> fst ` set (ips_state self) \<and>
        ips_threshold self < int (card (dom (sources_of (ips_state self) dst))) \<and>
        (\<forall>src c. sources_of (ips_state self) dst src = Some c \<longrightarrow> min_packets_per_source self \<le> c)"
  proof (cases "map_of (ips_state self) dst")
    case None
    then have "dst \<notin> fst ` set (ips_state self)" by (simp add: map_of_eq_None_iff)
    then show ?thesis by (force simp add: expected_targets_def)
  next
    case (Some v)
    obtain srcs where v: "v = DictVal srcs" and ds: "distinct (map fst srcs)"
      using dict_ok_lookup [OF assms Some] by auto
    have mem: "(dst, w) \<in> set (ips_state self) \<longleftrightarrow> w = v" for w
      using Some dk by (metis map_of_is_SomeI map_of_SomeD option.inject)
    have inset: "dst \<in> set (expected_targets self) \<longleftrightarrow> suspected self v"
      using mem by (force simp add: expected_targets_def)
    have key: "dst \<in> fst ` set (ips_state self)" using Some by (metis map_of_SomeD fst_conv imageI)
    have card: "card (dom (map_of srcs)) = length srcs"
      using ds by (metis dom_map_of_conv_image_fst distinct_card length_map list.set_map)
    have all: "list_all (\<lambda>(src, c). min_packets_per_source self \<le> c) srcs \<longleftrightarrow>
        (\<forall>src c. map_of srcs src = Some c \<longrightarrow> min_packets_per_source self \<le> c)"
      using ds by (auto simp add: list_all_iff dest: map_of_SomeD map_of_is_SomeI)
    show ?thesis
      unfolding inset using key card all Some v
      by (simp add: suspected_def sources_of_def)
  qed
qed

theorem detect_ddos_targets_exact_witness:
  "dict_ok (ips_state loaded_detector) \<and>
   detect_ddos_targets loaded_detector = (Inr [167772162], loaded_detector) \<and>
   dict_ok (ips_state (loaded_detector\<lparr>min_packets_per_source := 60\<rparr>)) \<and>
   detect_ddos_targets (loaded_detector\<lparr>min_packets_per_source := 60\<rparr>) =
     (Inr [], loaded_detector\<lparr>min_packets_per_source := 60\<rparr>)"
  using detect_ddos_targets_exact [of loaded_detector]
    detect_ddos_targets_exact [of "loaded_detector\<lparr>min_packets_per_source := 60\<rparr>"]
  by (simp add: loaded_detector_def sample_detector_def SimpleDDoSDetector_init_def dict_ok_def expected_targets_def suspected_def)

text \<open>
  C7. An iteration of \<open>run\<close> that finds the window over (the time read at
  line 63 is more than \<open>analysis_interval\<close> after \<open>start_ts\<close>) and
  completes without an exception leaves the detector with \<open>ips_state\<close>
  assigned the empty dictionary and \<open>start_ts\<close> the time read at line 68,
  and with nothing else changed: the detector the next window starts from does
  not depend on what was accumulated before, and an evaluation of it reports
  nothing.
\<close>

theorem window_reset:
  assumes "run_iteration self got now1 now2 = (None, self', lg)"
    and "analysis_interval self < now1 - start_ts self"
  shows "self' = self\<lparr>ips_state := [], start_ts := now2\<rparr> \<and> ips_state self' = [] \<and>
     detect_ddos_targets self' = (Inr [], self')"
proof -
  define u where "u = (case got of None \<Rightarrow> (None, self) | Some pack \<Rightarrow> update_state self pack)"
  have only: "snd u = self\<lparr>ips_state := ips_state (snd u)\<rparr>"
    unfolding u_def using update_flows_only_state [of self]
    by (cases got) (simp_all add: update_state_def)
  obtain r self1 where u: "u = (r, self1)" by (cases u)
  have self1: "self1 = self\<lparr>ips_state := ips_state self1\<rparr>" using only u by simp
  have cfg: "start_ts self1 = start_ts self" "analysis_interval self1 = analysis_interval self"
    using self1 by (metis SimpleDDoSDetector.select_convs SimpleDDoSDetector.surjective
        SimpleDDoSDetector.update_convs(5))+
  have it: "run_iteration self got now1 now2 =
     (case u of
        (Some e, s1) \<Rightarrow> (Some e, s1, [])
      | (None, s1) \<Rightarrow>
          if now1 - start_ts s1 > analysis_interval s1 then
            (case detect_ddos_targets s1 of
               (Inl e, s2) \<Rightarrow> (Some e, s2, [])
             | (Inr ddos_targets, s2) \<Rightarrow>
                 (None, s2\<lparr>ips_state := [], start_ts := now2\<rparr>,
                  if length ddos_targets > 0 then report_ddos_targets ddos_targets else []))
          else (None, s1, []))"
    by (simp add: run_iteration_def u_def)
  have r: "r = None" using assms(1) it u by (cases r) auto
  obtain res s2 where d: "detect_ddos_targets self1 = (res, s2)" by (cases "detect_ddos_targets self1")
  have s2: "s2 = self1" using detect_loop_frame [of "map fst (ips_state self1)" self1 "[]"] d
    by (simp add: detect_ddos_targets_def)
  have "self' = self1\<lparr>ips_state := [], start_ts := now2\<rparr>"
    using assms it u r d s2 cfg by (cases res) auto
  then have eq: "self' = self\<lparr>ips_state := [], start_ts := now2\<rparr>"
    using self1 by (metis SimpleDDoSDetector.update_convs(5) SimpleDDoSDetector.surjective)
  have e: "ips_state self' = []" using eq by simp
  have "detect_ddos_targets self' = (Inr [], self')"
    using e by (simp add: detect_ddos_targets_def)
  then show ?thesis using eq e by simp
qed

theorem window_reset_witness:
  "run_iteration loaded_detector None 11 12 =
     (None, sample_detector\<lparr>start_ts := 12\<rparr>, [DetectedTarget 167772162]) \<and>
   analysis_interval loaded_detector < 11 - start_ts loaded_detector \<and>
   ips_state (sample_detector\<lparr>start_ts := 12\<rparr>) = [] \<and>
   run sample_detector 0
     [(Some sample_packet, 5, 5), (None, 11, 12), (Some single_source_packet, 13, 13), (None, 23, 24)] =
     (sample_detector\<lparr>start_ts := 24\<rparr>, [DetectedTarget 167772162])"
proof -
  have d: "detect_ddos_targets loaded_detector = (Inr [167772162], loaded_detector)"
    using detect_exact [of loaded_detector]
    by (simp add: loaded_detector_def sample_detector_def SimpleDDoSDetector_init_def dict_ok_def suspected_def)
  have it: "run_iteration loaded_detector None 11 12 =
     (None, sample_detector\<lparr>start_ts := 12\<rparr>, [DetectedTarget 167772162])"
    by (simp add: run_iteration_def d report_ddos_targets_def)
      (simp add: loaded_detector_def sample_detector_def SimpleDDoSDetector_init_def)
  have b: "analysis_interval loaded_detector < 11 - start_ts loaded_detector"
    by (simp add: loaded_detector_def sample_detector_def SimpleDDoSDetector_init_def)
  let ?one = "sample_detector\<lparr>ips_state := [(167772162, DictVal [(167772161, 100)])], start_ts := 12\<rparr>"
  have u2: "update_state (sample_detector\<lparr>start_ts := 12\<rparr>) single_source_packet = (None, ?one)"
    by (simp add: update_state_def single_source_packet_def update_flow_def truediv_def Let_def
        sample_detector_def SimpleDDoSDetector_init_def dd_getitem_def)
  have d2: "detect_ddos_targets ?one = (Inr [], ?one)"
    using detect_exact [of ?one]
    by (simp add: sample_detector_def SimpleDDoSDetector_init_def dict_ok_def suspected_def)
  have st0: "sample_detector\<lparr>start_ts := 0\<rparr> = sample_detector" by (simp add: sample_detector_def SimpleDDoSDetector_init_def)
  have i1: "run_iteration sample_detector (Some sample_packet) 5 5 = (None, loaded_detector, [])"
    by (simp add: run_iteration_def update_sample) (simp add: loaded_detector_def sample_detector_def SimpleDDoSDetector_init_def)
  have i3: "run_iteration (sample_detector\<lparr>start_ts := 12\<rparr>) (Some single_source_packet) 13 13 = (None, ?one, [])"
    by (simp add: run_iteration_def u2) (simp add: sample_detector_def SimpleDDoSDetector_init_def)
  have i4: "run_iteration ?one None 23 24 = (None, sample_detector\<lparr>start_ts := 24\<rparr>, [])"
    by (simp add: run_iteration_def d2) (simp add: sample_detector_def SimpleDDoSDetector_init_def)
  have r: "run sample_detector 0
     [(Some sample_packet, 5, 5), (None, 11, 12), (Some single_source_packet, 13, 13), (None, 23, 24)] =
     (sample_detector\<lparr>start_ts := 24\<rparr>, [DetectedTarget 167772162])"
    by (simp add: run_def st0 i1 it i3 i4)
  show ?thesis
    using window_reset [OF it b] it b r by simp
qed

text \<open>
  C4. The claim asks that a flow record with \<open>npackets == 0\<close> is skipped.
  \<open>update_state\<close> divides by \<open>npackets\<close> unguarded: the datagram
  \<open>zero_count_datagram\<close> decodes to a packet whose record has a packet count
  of 0, \<open>update_state\<close> raises \<open>ZeroDivisionError\<close> on it, and in
  \<open>run\<close> the exception ends the detector's loop, so the packet after it is
  never looked at.
\<close>

theorem zero_packet_count_raises:
  "parse_netflow_packet zero_count_datagram = ([], Inr (Some zero_count_packet)) \<and>
   update_state sample_detector zero_count_packet = (Some ZeroDivisionError, sample_detector) \<and>
   run sample_detector 0 [(Some zero_count_packet, 1, 1), (Some sample_packet, 2, 2)] =
     (sample_detector, [ExitedWithException ZeroDivisionError])"
proof (intro conjI)
  have idx: "[0..<1::nat] = [0]" by simp
  have "be_uint (py_slice 0 2 zero_count_datagram) = 5 \<and> be_uint (py_slice 2 4 zero_count_datagram) = int 1"
    by (simp add: zero_count_datagram_def be_uint_def py_slice_def)
  then show "parse_netflow_packet zero_count_datagram = ([], Inr (Some zero_count_packet))"
    using parse_v5_long_enough [of zero_count_datagram 1]
    by (simp add: idx zero_count_datagram_def zero_count_packet_def be_uint_def py_slice_def
        wire_flow_def header_len_eq flow_len_eq)
  show u: "update_state sample_detector zero_count_packet = (Some ZeroDivisionError, sample_detector)"
    by (simp add: update_state_def zero_count_packet_def update_flow_def truediv_def)
  have st0: "sample_detector\<lparr>start_ts := 0\<rparr> = sample_detector" by (simp add: sample_detector_def SimpleDDoSDetector_init_def)
  show "run sample_detector 0 [(Some zero_count_packet, 1, 1), (Some sample_packet, 2, 2)] =
     (sample_detector, [ExitedWithException ZeroDivisionError])"
    by (simp add: run_def st0 run_iteration_def u)
qed

end
